theory Spec2Isabelle
  imports Main "HOL-Library.Multiset"
begin

section \<open>The password generator of passwordgen\<close>

text \<open>
  The development follows the latest revision of the package (\<^verbatim>\<open>package passwordgen\<close>,
  with \<^verbatim>\<open>NewGenerator\<close>, \<^verbatim>\<open>NoAmbiguousCharacters\<close> and the \<^verbatim>\<open>Exact...\<close> methods).

  Strings. The alphabet fields of a \<^verbatim>\<open>Generator\<close> are unexported; the only values the
  package ever stores in them are the eight constants below (and the empty string of a
  zero \<^verbatim>\<open>Generator{}\<close>). All of them are ASCII, so a byte, a rune and a character are
  the same thing: a Go string is a \<^typ>\<open>string\<close>, \<^verbatim>\<open>len(s)\<close> is \<^term>\<open>length s\<close>,
  \<^verbatim>\<open>string(s[i])\<close> is \<^term>\<open>[s ! i]\<close>, and the conversions \<^verbatim>\<open>[]rune(pass)\<close> and
  \<^verbatim>\<open>string(runePass)\<close> keep the list as it is.
\<close>

subsection \<open>Constants\<close>

definition LowerLetters :: string where
  "LowerLetters = ''abcdefghijklmnopqrstuvwxyz''"

definition UpperLetters :: string where
  "UpperLetters = ''ABCDEFGHIJKLMNOPQRSTUVWXYZ''"

definition Digits :: string where
  "Digits = ''0123456789''"

definition Symbols :: string where
  "Symbols = ''~!@#$%^&*()_+-={}[]''"

definition LowerLettersNoAmbig :: string where
  "LowerLettersNoAmbig = ''abcdefghjkmnpqrstuvwxyz''"

definition UpperLettersNoAmbig :: string where
  "UpperLettersNoAmbig = ''ABCDEFGHJKMNPQRSTUVWXYZ''"

definition DigitsNoAmbig :: string where
  "DigitsNoAmbig = ''23456789''"

definition SymbolsNoAmbig :: string where
  "SymbolsNoAmbig = ''~!@#$%^&*()_+-={}[]''"

text \<open>
  The two sentinel errors of the package, and the error the random source hands back
  when a read fails (any other value of Go's \<^verbatim>\<open>error\<close>; the sentinels are created by
  \<^verbatim>\<open>errors.New\<close>, so no other error is equal to one of them).
\<close>

datatype error = ErrExceedsTotalLength | ErrNoCharactersSpecified | ErrReader

text \<open>The run-time panics the code could raise.\<close>

datatype panic =
    IntArgumentNotPositive  \<comment> \<open>\<^verbatim>\<open>crypto/rand: argument to Int is <= 0\<close>\<close>
  | NilDereference          \<comment> \<open>a method of \<^verbatim>\<open>*big.Int\<close> called on a nil pointer\<close>
  | IndexOutOfRange         \<comment> \<open>\<^verbatim>\<open>s[i]\<close> outside the string\<close>

datatype 'a exec = Panic panic | Done 'a

subsection \<open>The generator and its configuration methods\<close>

record Generator =
  lowerLetters :: string
  upperLetters :: string
  digits :: string
  symbols :: string
  withLower :: bool
  withUpper :: bool
  withDigits :: bool
  withSymbols :: bool
  requireLower :: int
  requireUpper :: int
  requireDigits :: int
  requireSymbols :: int

definition NewGenerator :: Generator where
  "NewGenerator =
     \<lparr>lowerLetters = LowerLetters, upperLetters = UpperLetters,
      digits = Digits, symbols = Symbols,
      withLower = False, withUpper = False, withDigits = False, withSymbols = False,
      requireLower = 0, requireUpper = 0, requireDigits = 0, requireSymbols = 0\<rparr>"

definition NoAmbiguousCharacters :: "Generator \<Rightarrow> Generator" where
  "NoAmbiguousCharacters g =
     g\<lparr>lowerLetters := LowerLettersNoAmbig, upperLetters := UpperLettersNoAmbig,
       digits := DigitsNoAmbig, symbols := SymbolsNoAmbig\<rparr>"

definition WithLower :: "Generator \<Rightarrow> Generator" where
  "WithLower g = g\<lparr>withLower := True\<rparr>"

definition WithUpper :: "Generator \<Rightarrow> Generator" where
  "WithUpper g = g\<lparr>withUpper := True\<rparr>"

definition WithDigits :: "Generator \<Rightarrow> Generator" where
  "WithDigits g = g\<lparr>withDigits := True\<rparr>"

definition WithSymbols :: "Generator \<Rightarrow> Generator" where
  "WithSymbols g = g\<lparr>withSymbols := True\<rparr>"

definition RequireLower :: "int \<Rightarrow> Generator \<Rightarrow> Generator" where
  "RequireLower N g = g\<lparr>withLower := True, requireLower := N\<rparr>"

definition RequireUpper :: "int \<Rightarrow> Generator \<Rightarrow> Generator" where
  "RequireUpper N g = g\<lparr>withUpper := True, requireUpper := N\<rparr>"

definition RequireDigits :: "int \<Rightarrow> Generator \<Rightarrow> Generator" where
  "RequireDigits N g = g\<lparr>withDigits := True, requireDigits := N\<rparr>"

definition RequireSymbols :: "int \<Rightarrow> Generator \<Rightarrow> Generator" where
  "RequireSymbols N g = g\<lparr>withSymbols := True, requireSymbols := N\<rparr>"

definition ExactLower :: "int \<Rightarrow> Generator \<Rightarrow> Generator" where
  "ExactLower N g = g\<lparr>withLower := False, requireLower := N\<rparr>"

definition ExactUpper :: "int \<Rightarrow> Generator \<Rightarrow> Generator" where
  "ExactUpper N g = g\<lparr>withUpper := False, requireUpper := N\<rparr>"

definition ExactDigits :: "int \<Rightarrow> Generator \<Rightarrow> Generator" where
  "ExactDigits N g = g\<lparr>withDigits := False, requireDigits := N\<rparr>"

definition ExactSymbols :: "int \<Rightarrow> Generator \<Rightarrow> Generator" where
  "ExactSymbols N g = g\<lparr>withSymbols := False, requireSymbols := N\<rparr>"

text \<open>
  The alphabets a generator made by \<^verbatim>\<open>NewGenerator\<close> can hold: the four full tables, or
  the four tables without ambiguous characters. Every combination of flags and counts is
  reachable through the configuration methods.
\<close>

definition fullAlphabets :: "Generator \<Rightarrow> bool" where
  "fullAlphabets g =
     (lowerLetters g = LowerLetters \<and> upperLetters g = UpperLetters \<and>
      digits g = Digits \<and> symbols g = Symbols)"

definition noAmbigAlphabets :: "Generator \<Rightarrow> bool" where
  "noAmbigAlphabets g =
     (lowerLetters g = LowerLettersNoAmbig \<and> upperLetters g = UpperLettersNoAmbig \<and>
      digits g = DigitsNoAmbig \<and> symbols g = SymbolsNoAmbig)"

definition constructed :: "Generator \<Rightarrow> bool" where
  "constructed g = (if fullAlphabets g then True else noAmbigAlphabets g)"

subsection \<open>Go's \<^verbatim>\<open>int\<close>\<close>

text \<open>
  \<^verbatim>\<open>int\<close> is a 64-bit two's complement integer; \<^verbatim>\<open>+\<close> wraps around. The only place of
  \<^verbatim>\<open>Generate\<close> where a sum can leave the range is the addition of the four required
  counts; the wrap-around is written out there.
\<close>

definition wrap_int :: "int \<Rightarrow> int" where
  "wrap_int x = (x + 2 ^ 63) mod 2 ^ 64 - 2 ^ 63"

definition add_int :: "int \<Rightarrow> int \<Rightarrow> int" where
  "add_int x y = wrap_int (x + y)"

definition is_int :: "int \<Rightarrow> bool" where
  "is_int x = (- (2 ^ 63) \<le> x \<and> x < 2 ^ 63)"

subsection \<open>The random source\<close>

text \<open>
  \<^verbatim>\<open>crypto/rand\<close> is not part of the package. Its reader is an oracle: the answer to the
  \<open>i\<close>-th call of \<^verbatim>\<open>rand.Int\<close> is either a failure or a number. The state a call of
  \<^verbatim>\<open>Generate\<close> can touch is the generator its receiver points to and the number of
  answers consumed so far.
\<close>

datatype draw = Fails | Yields (number: nat)

type_synonym reader = "nat \<Rightarrow> draw"

record machine =
  receiver :: Generator
  reads :: nat

type_synonym 'a go = "machine \<Rightarrow> 'a exec \<times> machine"

text \<open>
  The contract of \<^verbatim>\<open>rand.Int(rand.Reader, max)\<close>: it panics when \<open>max \<le> 0\<close>; when
  reading fails it returns a nil \<^verbatim>\<open>*big.Int\<close> together with the error; otherwise it
  returns a number in \<open>[0, max)\<close> and a nil error. The first component of the result is
  the pointer (\<^term>\<open>None\<close> for nil).
\<close>

definition rand_Int :: "reader \<Rightarrow> int \<Rightarrow> (int option \<times> error option) go" where
  "rand_Int rd mx m =
     (if mx \<le> 0 then (Panic IntArgumentNotPositive, m)
      else (case rd (reads m) of
              Fails \<Rightarrow> (Done (None, Some ErrReader), m\<lparr>reads := Suc (reads m)\<rparr>)
            | Yields v \<Rightarrow>
                (Done (Some (int v mod mx), None), m\<lparr>reads := Suc (reads m)\<rparr>)))"

subsection \<open>\<^verbatim>\<open>randomElement\<close>\<close>

definition randomElement :: "reader \<Rightarrow> string \<Rightarrow> (string \<times> error option) go" where
  "randomElement rd s m =
     (case rand_Int rd (int (length s)) m of
        (Panic p, m') \<Rightarrow> (Panic p, m')
      | (Done (n, Some err), m') \<Rightarrow> (Done ('''', Some err), m')
      | (Done (None, None), m') \<Rightarrow> (Panic NilDereference, m')
      | (Done (Some i, None), m') \<Rightarrow>
          (if 0 \<le> i \<and> i < int (length s) then (Done ([s ! nat i], None), m')
           else (Panic IndexOutOfRange, m')))"

subsection \<open>The loop that appends random characters\<close>

text \<open>
  Neither \<^verbatim>\<open>rand.Int\<close> nor \<^verbatim>\<open>randomElement\<close> has a reference to the generator; the
  loops below re-read their bound from the receiver at every iteration, and terminate
  because the body leaves it alone.
\<close>

text \<open>
  The five loops of \<^verbatim>\<open>Generate\<close> have the same body:
  \<^verbatim>\<open>for i := 0; i < bound; i++ { elm, err := randomElement(s); if err != nil { return "", err }; buffer.WriteString(elm) }\<close>.
  The result \<^term>\<open>Inl err\<close> stands for the early \<^verbatim>\<open>return "", err\<close> of the enclosing
  function, \<^term>\<open>Inr buffer\<close> for the buffer when the loop is left. The counter stays
  below the bound, so \<^verbatim>\<open>i++\<close> never wraps.
\<close>

function appendRandom ::
  "reader \<Rightarrow> string \<Rightarrow> (Generator \<Rightarrow> int) \<Rightarrow> int \<Rightarrow> string \<Rightarrow> (error + string) go" where
  "appendRandom rd s bound i buffer m =
     (if i < bound (receiver m) then
        (case randomElement rd s m of
           (Panic p, m') \<Rightarrow> (Panic p, m')
         | (Done (elm, Some err), m') \<Rightarrow> (Done (Inl err), m')
         | (Done (elm, None), m') \<Rightarrow> appendRandom rd s bound (i + 1) (buffer @ elm) m')
      else (Done (Inr buffer), m))"
  by pat_completeness auto
termination
  apply (relation "measure (\<lambda>(rd, s, bound, i, buffer, m). nat (bound (receiver m) - i))")
   apply simp
  subgoal for rd s bound i buffer m x1 m' x2 elm e
    by (auto simp: randomElement_def rand_Int_def
        split: if_splits draw.splits prod.splits exec.splits option.splits)
  done

declare appendRandom.simps [simp del]

subsection \<open>\<^verbatim>\<open>shuffle\<close>\<close>

text \<open>
  \<^verbatim>\<open>shuffle\<close> works in place on the array behind \<^verbatim>\<open>vals\<close>; the slice shrinks by one
  element per iteration, the array stays. The second argument is \<^verbatim>\<open>len(vals)\<close>, the
  third the array, which the caller reads afterwards. The error of \<^verbatim>\<open>rand.Int\<close> is
  dropped (\<^verbatim>\<open>randIndex, _ := ...\<close>) and \<^verbatim>\<open>randIndex.Int64()\<close> is called on the pointer
  as it is. The tuple assignment stores into \<^verbatim>\<open>vals[n-1]\<close> first.
\<close>

fun shuffle :: "reader \<Rightarrow> nat \<Rightarrow> string \<Rightarrow> string go" where
  "shuffle rd 0 vals m = (Done vals, m)"
| "shuffle rd (Suc k) vals m =
     (case rand_Int rd (int (Suc k)) m of
        (Panic p, m') \<Rightarrow> (Panic p, m')
      | (Done (None, _), m') \<Rightarrow> (Panic NilDereference, m')
      | (Done (Some randIndex, _), m') \<Rightarrow>
          shuffle rd k (vals[k := vals ! nat randIndex, nat randIndex := vals ! k]) m')"

subsection \<open>\<^verbatim>\<open>Generate\<close>\<close>

text \<open>Sequencing: a panic or an early return ends the function.\<close>

definition andThen :: "(error + 'a) go \<Rightarrow> ('a \<Rightarrow> (error + 'b) go) \<Rightarrow> (error + 'b) go" where
  "andThen f k m =
     (case f m of
        (Panic p, m') \<Rightarrow> (Panic p, m')
      | (Done (Inl err), m') \<Rightarrow> (Done (Inl err), m')
      | (Done (Inr x), m') \<Rightarrow> k x m')"

text \<open>One block \<^verbatim>\<open>if g.requireX > 0 { for i := 0; i < g.requireX; i++ { ... } }\<close>.\<close>

definition seedClass ::
  "reader \<Rightarrow> string \<Rightarrow> (Generator \<Rightarrow> int) \<Rightarrow> string \<Rightarrow> (error + string) go" where
  "seedClass rd s required buffer m =
     (if required (receiver m) > 0 then appendRandom rd s required 0 buffer m
      else (Done (Inr buffer), m))"

text \<open>The four blocks, in the order of the source, each on the constant table.\<close>

definition seedRequired :: "reader \<Rightarrow> string \<Rightarrow> (error + string) go" where
  "seedRequired rd buffer =
     andThen (seedClass rd LowerLetters requireLower buffer) (\<lambda>buffer.
     andThen (seedClass rd UpperLetters requireUpper buffer) (\<lambda>buffer.
     andThen (seedClass rd Digits requireDigits buffer) (\<lambda>buffer.
     seedClass rd Symbols requireSymbols buffer)))"

text \<open>The string \<^verbatim>\<open>valuesBuilder\<close> collects from the fields of the generator.\<close>

definition fillPool :: "Generator \<Rightarrow> string" where
  "fillPool g =
     (if withLower g then lowerLetters g else '''') @
     (if withUpper g then upperLetters g else '''') @
     (if withDigits g then digits g else '''') @
     (if withSymbols g then symbols g else '''')"

text \<open>
  The block \<^verbatim>\<open>if bufferLen < length { ... }\<close>. Inside it \<open>0 \<le> bufferLen < length\<close>, so
  \<^verbatim>\<open>length-bufferLen\<close> does not wrap.
\<close>

definition fillRemaining :: "reader \<Rightarrow> int \<Rightarrow> string \<Rightarrow> (error + string) go" where
  "fillRemaining rd len buffer m =
     (let bufferLen = int (length buffer) in
      if bufferLen < len then
        (let values = fillPool (receiver m) in
         if length values = 0 then (Done (Inl ErrNoCharactersSpecified), m)
         else appendRandom rd values (\<lambda>g. len - bufferLen) 0 buffer m)
      else (Done (Inr buffer), m))"

text \<open>\<^verbatim>\<open>g.requireLower+g.requireUpper+g.requireDigits+g.requireSymbols\<close>, as Go adds.\<close>

definition requiredSum :: "Generator \<Rightarrow> int" where
  "requiredSum g =
     add_int (add_int (add_int (requireLower g) (requireUpper g)) (requireDigits g))
       (requireSymbols g)"

definition Generate :: "reader \<Rightarrow> int \<Rightarrow> (string \<times> error option) go" where
  "Generate rd len m =
     (if \<not> withLower (receiver m) \<and> \<not> withUpper (receiver m) \<and>
         \<not> withDigits (receiver m) \<and> \<not> withSymbols (receiver m)
      then (Done ('''', Some ErrNoCharactersSpecified), m)
      else if requiredSum (receiver m) > len
      then (Done ('''', Some ErrExceedsTotalLength), m)
      else
        (case andThen (seedRequired rd '''') (fillRemaining rd len) m of
           (Panic p, m') \<Rightarrow> (Panic p, m')
         | (Done (Inl err), m') \<Rightarrow> (Done ('''', Some err), m')
         | (Done (Inr pass), m') \<Rightarrow>
             (case shuffle rd (length pass) pass m' of
                (Panic p, m'') \<Rightarrow> (Panic p, m'')
              | (Done runePass, m'') \<Rightarrow> (Done (runePass, None), m''))))"

text \<open>A call on the generator \<open>g\<close>, before any answer of the random source is used.\<close>

definition start :: "Generator \<Rightarrow> machine" where
  "start g = \<lparr>receiver = g, reads = 0\<rparr>"

subsection \<open>Vocabulary for the properties\<close>

text \<open>The character \<^verbatim>\<open>randomElement(s)\<close> returns when the random source answers \<open>d\<close>.\<close>

definition pick :: "string \<Rightarrow> draw \<Rightarrow> char" where
  "pick s d = s ! (number d mod length s)"

text \<open>The \<open>k\<close> characters that the answers \<open>p\<close>, \<open>p + 1\<close>, ... select from \<open>s\<close>.\<close>

definition drawn :: "reader \<Rightarrow> string \<Rightarrow> nat \<Rightarrow> nat \<Rightarrow> string" where
  "drawn rd s p k = map (\<lambda>j. pick s (rd (p + j))) [0..<k]"

text \<open>None of the \<open>k\<close> answers from \<open>p\<close> on is a failure.\<close>

definition allYield :: "reader \<Rightarrow> nat \<Rightarrow> nat \<Rightarrow> bool" where
  "allYield rd p k = (\<forall>i\<in>{p..<p + k}. rd i \<noteq> Fails)"

text \<open>A random source that gives the listed answers first, and zeros from then on.\<close>

definition listReader :: "draw list \<Rightarrow> reader" where
  "listReader ds i = (if i < length ds then ds ! i else Yields 0)"

text \<open>The four classes, their full tables, and what a generator holds for each.\<close>

datatype charClass = Lower | Upper | Digit | Symbol


fun enabled :: "Generator \<Rightarrow> charClass \<Rightarrow> bool" where
  "enabled g Lower = withLower g"
| "enabled g Upper = withUpper g"
| "enabled g Digit = withDigits g"
| "enabled g Symbol = withSymbols g"

fun required :: "Generator \<Rightarrow> charClass \<Rightarrow> int" where
  "required g Lower = requireLower g"
| "required g Upper = requireUpper g"
| "required g Digit = requireDigits g"
| "required g Symbol = requireSymbols g"

text \<open>The alphabet a generator is configured with for a class.\<close>

fun configured :: "Generator \<Rightarrow> charClass \<Rightarrow> string" where
  "configured g Lower = lowerLetters g"
| "configured g Upper = upperLetters g"
| "configured g Digit = digits g"
| "configured g Symbol = symbols g"

text \<open>
  What seeding and filling produce when no read fails: the number of characters the four
  seeding blocks append, those characters when the first answer used is number \<open>p\<close>, and
  the number of slots left for the fill step.
\<close>

definition seedCount :: "Generator \<Rightarrow> nat" where
  "seedCount g =
     nat (requireLower g) + nat (requireUpper g) + nat (requireDigits g) +
     nat (requireSymbols g)"

definition seeded :: "reader \<Rightarrow> Generator \<Rightarrow> nat \<Rightarrow> string" where
  "seeded rd g p =
     drawn rd LowerLetters p (nat (requireLower g)) @
     drawn rd UpperLetters (p + nat (requireLower g)) (nat (requireUpper g)) @
     drawn rd Digits (p + nat (requireLower g) + nat (requireUpper g))
       (nat (requireDigits g)) @
     drawn rd Symbols (p + nat (requireLower g) + nat (requireUpper g) + nat (requireDigits g))
       (nat (requireSymbols g))"

definition fillCount :: "Generator \<Rightarrow> int \<Rightarrow> nat" where
  "fillCount g len = nat (len - int (seedCount g))"

section \<open>Properties\<close>

subsection \<open>One random character\<close>

lemma rand_Int_receiver: "receiver (snd (rand_Int rd mx m)) = receiver m"
  by (simp add: rand_Int_def split: draw.split)

lemma randomElement_receiver: "receiver (snd (randomElement rd s m)) = receiver m"
  using rand_Int_receiver [of rd "int (length s)" m]
  by (auto simp: randomElement_def split: prod.split exec.split option.split)

lemma randomElement_empty: "randomElement rd '''' m = (Panic IntArgumentNotPositive, m)"
  by (simp add: randomElement_def rand_Int_def)

lemma randomElement_Fails:
  "s \<noteq> [] \<Longrightarrow> rd (reads m) = Fails \<Longrightarrow>
   randomElement rd s m = (Done ('''', Some ErrReader), m\<lparr>reads := Suc (reads m)\<rparr>)"
  by (simp add: randomElement_def rand_Int_def)

lemma randomElement_Yields:
  assumes "s \<noteq> []" and "rd (reads m) = Yields v"
  shows "randomElement rd s m =
           (Done ([pick s (Yields v)], None), m\<lparr>reads := Suc (reads m)\<rparr>)"
proof -
  have "int v mod int (length s) = int (v mod length s)"
    by (simp add: zmod_int)
  moreover have "v mod length s < length s"
    using assms(1) by simp
  ultimately show ?thesis
    using assms by (simp add: randomElement_def rand_Int_def pick_def)
qed

lemma pick_in_set: "s \<noteq> [] \<Longrightarrow> pick s d \<in> set s"
  by (simp add: pick_def)

lemma drawn_Suc_front: "drawn rd s p (Suc k) = pick s (rd p) # drawn rd s (Suc p) k"
  unfolding drawn_def by (simp add: map_upt_Suc del: upt_Suc)

lemma length_drawn: "length (drawn rd s p k) = k"
  by (simp add: drawn_def)

lemma set_drawn: "s \<noteq> [] \<Longrightarrow> set (drawn rd s p k) \<subseteq> set s"
  by (auto simp: drawn_def pick_in_set)

lemma allYield_0: "allYield rd p 0"
  by (simp add: allYield_def)

lemma allYield_Suc: "allYield rd p (Suc k) = (rd p \<noteq> Fails \<and> allYield rd (Suc p) k)"
proof -
  have "{p..<p + Suc k} = insert p {Suc p..<Suc p + k}"
    by auto
  then show ?thesis
    by (simp add: allYield_def)
qed

lemma allYield_add:
  "allYield rd p (j + k) = (allYield rd p j \<and> allYield rd (p + j) k)"
  by (induction j arbitrary: p) (simp_all add: allYield_0 allYield_Suc)

subsection \<open>The loop\<close>

lemma appendRandom_receiver:
  "receiver (snd (appendRandom rd s b i buffer m)) = receiver m"
proof (induction rd s b i buffer m rule: appendRandom.induct)
  case (1 rd s b i buffer m)
  show ?case
  proof (cases "i < b (receiver m)")
    case False
    then show ?thesis by (subst appendRandom.simps) simp
  next
    case True
    obtain r m' where r: "randomElement rd s m = (r, m')"
      by (cases "randomElement rd s m")
    then have m': "receiver m' = receiver m"
      using randomElement_receiver [of rd s m] by simp
    show ?thesis
    proof (cases r)
      case (Panic p)
      then show ?thesis using True r m' by (subst appendRandom.simps) simp
    next
      case (Done res)
      obtain elm err where res: "res = (elm, err)"
        by (cases res)
      show ?thesis
      proof (cases err)
        case (Some e)
        then show ?thesis using True r m' Done res by (subst appendRandom.simps) simp
      next
        case None
        have "appendRandom rd s b i buffer m = appendRandom rd s b (i + 1) (buffer @ elm) m'"
          using True r Done res None by (subst appendRandom.simps) simp
        moreover have "receiver (snd (appendRandom rd s b (i + 1) (buffer @ elm) m')) = receiver m'"
          using "1.IH" [OF True r [symmetric] Done res [symmetric] None] .
        ultimately show ?thesis using m' by simp
      qed
    qed
  qed
qed

lemma appendRandom_allYield:
  assumes "s \<noteq> []"
  shows "nat (b (receiver m) - i) = k \<Longrightarrow> allYield rd (reads m) k \<Longrightarrow>
         appendRandom rd s b i buffer m =
           (Done (Inr (buffer @ drawn rd s (reads m) k)), m\<lparr>reads := reads m + k\<rparr>)"
proof (induction k arbitrary: i buffer m)
  case 0
  then show ?case by (subst appendRandom.simps) (simp add: drawn_def)
next
  case (Suc k)
  from Suc.prems(2) obtain v where v: "rd (reads m) = Yields v"
    and rest: "allYield rd (Suc (reads m)) k"
    by (auto simp: allYield_Suc) (metis draw.exhaust)
  let ?m' = "m\<lparr>reads := Suc (reads m)\<rparr>"
  have lt: "i < b (receiver m)"
    using Suc.prems(1) by linarith
  have k: "nat (b (receiver ?m') - (i + 1)) = k"
    using Suc.prems(1) by simp
  have "appendRandom rd s b i buffer m =
          appendRandom rd s b (i + 1) (buffer @ [pick s (Yields v)]) ?m'"
    by (subst appendRandom.simps) (simp add: lt randomElement_Yields assms v)
  also have "\<dots> = (Done (Inr ((buffer @ [pick s (Yields v)]) @ drawn rd s (reads ?m') k)),
                    ?m'\<lparr>reads := reads ?m' + k\<rparr>)"
    using Suc.IH [OF k, of "buffer @ [pick s (Yields v)]"] rest by simp
  finally show ?case
    by (simp add: drawn_Suc_front v)
qed

lemma appendRandom_result:
  assumes "s \<noteq> []"
  shows "nat (b (receiver m) - i) = k \<Longrightarrow>
         (\<exists>t m'. appendRandom rd s b i buffer m = (Done (Inr (buffer @ t)), m') \<and>
                 length t = k \<and> set t \<subseteq> set s) \<or>
         (\<exists>m'. appendRandom rd s b i buffer m = (Done (Inl ErrReader), m') \<and>
               \<not> allYield rd (reads m) k)"
proof (induction k arbitrary: i buffer m)
  case 0
  then show ?case by (subst appendRandom.simps) simp
next
  case (Suc k)
  let ?m' = "m\<lparr>reads := Suc (reads m)\<rparr>"
  have lt: "i < b (receiver m)"
    using Suc.prems(1) by linarith
  have k: "nat (b (receiver ?m') - (i + 1)) = k"
    using Suc.prems(1) by simp
  show ?case
  proof (cases "rd (reads m)")
    case Fails
    then have "appendRandom rd s b i buffer m = (Done (Inl ErrReader), ?m')"
      by (subst appendRandom.simps) (simp add: lt randomElement_Fails assms)
    then show ?thesis
      using Fails by (simp add: allYield_Suc)
  next
    case (Yields v)
    have step: "appendRandom rd s b i buffer m =
                  appendRandom rd s b (i + 1) (buffer @ [pick s (Yields v)]) ?m'"
      by (subst appendRandom.simps) (simp add: lt randomElement_Yields assms Yields)
    have "pick s (Yields v) \<in> set s"
      using assms by (rule pick_in_set)
    with Suc.IH [OF k, of "buffer @ [pick s (Yields v)]"] show ?thesis
      unfolding step allYield_Suc [of rd "reads m"] using Yields
      by (elim disjE exE conjE)
        (rule disjI1, rule_tac x = "pick s (Yields v) # t" in exI, auto)
  qed
qed

subsection \<open>The receiver is only read\<close>

lemma andThen_receiver:
  assumes "\<And>m. receiver (snd (f m)) = receiver m"
    and "\<And>x m. receiver (snd (k x m)) = receiver m"
  shows "receiver (snd (andThen f k m)) = receiver m"
proof (cases "f m")
  case (Pair r m')
  then have "receiver m' = receiver m"
    using assms(1) [of m] by simp
  then show ?thesis
    using Pair assms(2) by (auto simp: andThen_def split: exec.split sum.split)
qed

lemma seedClass_receiver: "receiver (snd (seedClass rd s r buffer m)) = receiver m"
  by (simp add: seedClass_def appendRandom_receiver)

lemma seedRequired_receiver: "receiver (snd (seedRequired rd buffer m)) = receiver m"
  unfolding seedRequired_def
  by (intro andThen_receiver seedClass_receiver)

lemma fillRemaining_receiver: "receiver (snd (fillRemaining rd len buffer m)) = receiver m"
  by (simp add: fillRemaining_def Let_def appendRandom_receiver)

lemma shuffle_receiver: "receiver (snd (shuffle rd k vals m)) = receiver m"
proof (induction k arbitrary: vals m)
  case 0
  show ?case by simp
next
  case (Suc k)
  obtain r m' where r: "rand_Int rd (int (Suc k)) m = (r, m')"
    by (cases "rand_Int rd (int (Suc k)) m")
  then have "receiver m' = receiver m"
    using rand_Int_receiver [of rd "int (Suc k)" m] by simp
  then show ?case
    using r Suc.IH by (auto split: exec.split option.split prod.split)
qed

lemma Generate_receiver: "receiver (snd (Generate rd len m)) = receiver m"
proof -
  let ?f = "andThen (seedRequired rd '''') (fillRemaining rd len)"
  have a: "receiver (snd (?f m)) = receiver m"
    by (intro andThen_receiver seedRequired_receiver fillRemaining_receiver)
  obtain r m' where r: "?f m = (r, m')"
    by (cases "?f m")
  with a have m': "receiver m' = receiver m"
    by simp
  have "receiver (snd (shuffle rd k vals m')) = receiver m" for k vals
    using shuffle_receiver [of rd k vals m'] m' by simp
  then have "receiver m'' = receiver m" if "shuffle rd k vals m' = (x, m'')" for k vals x m''
    using that by (metis snd_conv)
  then show ?thesis
    using r m' by (auto simp: Generate_def split: exec.split sum.split prod.split)
qed

subsection \<open>Evaluation on concrete calls\<close>

lemmas run_defs =
  Generate_def start_def requiredSum_def add_int_def wrap_int_def andThen_def
  seedRequired_def seedClass_def fillRemaining_def fillPool_def randomElement_def
  rand_Int_def listReader_def appendRandom.simps

lemmas config_defs =
  NewGenerator_def NoAmbiguousCharacters_def WithLower_def WithUpper_def WithDigits_def
  WithSymbols_def RequireLower_def RequireUpper_def RequireDigits_def RequireSymbols_def
  ExactLower_def ExactUpper_def ExactDigits_def ExactSymbols_def

lemmas table_defs =
  LowerLetters_def UpperLetters_def Digits_def Symbols_def LowerLettersNoAmbig_def
  UpperLettersNoAmbig_def DigitsNoAmbig_def SymbolsNoAmbig_def

subsection \<open>The shuffle\<close>

lemma rand_Int_Suc:
  "rand_Int rd (int (Suc k)) m =
     (case rd (reads m) of
        Fails \<Rightarrow> (Done (None, Some ErrReader), m\<lparr>reads := Suc (reads m)\<rparr>)
      | Yields v \<Rightarrow> (Done (Some (int (v mod Suc k)), None), m\<lparr>reads := Suc (reads m)\<rparr>))"
  by (simp add: rand_Int_def zmod_int split: draw.split)

lemma shuffle_result:
  "k \<le> length vals \<Longrightarrow>
   (\<exists>vals'. shuffle rd k vals m = (Done vals', m\<lparr>reads := reads m + k\<rparr>) \<and>
            mset vals' = mset vals \<and> allYield rd (reads m) k) \<or>
   (\<exists>m'. shuffle rd k vals m = (Panic NilDereference, m') \<and> \<not> allYield rd (reads m) k)"
proof (induction k arbitrary: vals m)
  case 0
  then show ?case by (simp add: allYield_0)
next
  case (Suc k)
  let ?m' = "m\<lparr>reads := Suc (reads m)\<rparr>"
  show ?case
  proof (cases "rd (reads m)")
    case Fails
    then show ?thesis
      by (simp add: rand_Int_Suc allYield_Suc del: of_nat_Suc)
  next
    case (Yields v)
    let ?j = "v mod Suc k"
    let ?vals = "vals[k := vals ! ?j, ?j := vals ! k]"
    have j: "?j < length vals" and k: "k < length vals"
      using Suc.prems by (auto intro: less_le_trans [OF mod_less_divisor])
    have perm: "mset ?vals = mset vals"
      using j k by (rule mset_swap)
    have step: "shuffle rd (Suc k) vals m = shuffle rd k ?vals ?m'"
      using Yields by (simp add: rand_Int_Suc del: of_nat_Suc)
    have "k \<le> length ?vals"
      using k by simp
    from Suc.IH [OF this, of ?m'] show ?thesis
      unfolding step allYield_Suc [of rd "reads m"] using Yields perm
      by auto
  qed
qed

lemma shuffle_allYield:
  assumes "k \<le> length vals" and "allYield rd (reads m) k"
  obtains vals' where "shuffle rd k vals m = (Done vals', m\<lparr>reads := reads m + k\<rparr>)"
    and "mset vals' = mset vals"
  using shuffle_result [OF assms(1), of rd m] assms(2) by auto


lemma shuffle_Panic:
  assumes "k \<le> length vals" and "shuffle rd k vals m = (Panic p, m')"
  shows "p = NilDereference"
  using shuffle_result [OF assms(1), of rd m] assms(2) by auto

subsection \<open>Seeding and filling\<close>

lemma appendRandom_no_panic:
  "s \<noteq> [] \<Longrightarrow> fst (appendRandom rd s b i buffer m) \<noteq> Panic p"
  using appendRandom_result [of s b m i "nat (b (receiver m) - i)" rd buffer] by auto

lemma appendRandom_Inl:
  "s \<noteq> [] \<Longrightarrow> appendRandom rd s b i buffer m = (Done (Inl e), m') \<Longrightarrow> e = ErrReader"
  using appendRandom_result [of s b m i "nat (b (receiver m) - i)" rd buffer] by auto


lemma seedClass_no_panic: "s \<noteq> [] \<Longrightarrow> fst (seedClass rd s r buffer m) \<noteq> Panic p"
  by (simp add: seedClass_def appendRandom_no_panic)

lemma seedClass_Inl:
  "s \<noteq> [] \<Longrightarrow> seedClass rd s r buffer m = (Done (Inl e), m') \<Longrightarrow> e = ErrReader"
  by (auto simp: seedClass_def split: if_splits dest: appendRandom_Inl)


lemma seedClass_allYield:
  assumes "s \<noteq> []" and "allYield rd (reads m) (nat (r (receiver m)))"
  shows "seedClass rd s r buffer m =
           (Done (Inr (buffer @ drawn rd s (reads m) (nat (r (receiver m))))),
            m\<lparr>reads := reads m + nat (r (receiver m))\<rparr>)"
proof (cases "0 < r (receiver m)")
  case True
  then show ?thesis
    using appendRandom_allYield [OF assms(1), of r m 0 "nat (r (receiver m))" rd buffer] assms(2)
    by (simp add: seedClass_def)
next
  case False
  then show ?thesis
    by (simp add: seedClass_def drawn_def)
qed

lemma tables_nonempty:
  "LowerLetters \<noteq> []" "UpperLetters \<noteq> []" "Digits \<noteq> []" "Symbols \<noteq> []"
  by (simp_all add: table_defs)

lemma andThen_no_panic:
  assumes "fst (f m) \<noteq> Panic p" and "\<And>x m'. fst (k x m') \<noteq> Panic p"
  shows "fst (andThen f k m) \<noteq> Panic p"
  using assms by (auto simp: andThen_def split: prod.split exec.split sum.split)


lemma andThen_Inl:
  assumes "andThen f k m = (Done (Inl e), m')"
  shows "f m = (Done (Inl e), m') \<or> (\<exists>x m1. f m = (Done (Inr x), m1) \<and> k x m1 = (Done (Inl e), m'))"
  using assms by (auto simp: andThen_def split: prod.splits exec.splits sum.splits)

lemma seedRequired_no_panic: "fst (seedRequired rd buffer m) \<noteq> Panic p"
  unfolding seedRequired_def
  by (intro andThen_no_panic seedClass_no_panic tables_nonempty)

lemma seedRequired_Inl:
  assumes "seedRequired rd buffer m = (Done (Inl e), m')"
  shows "e = ErrReader"
  using assms unfolding seedRequired_def
  by (auto dest!: andThen_Inl dest: seedClass_Inl [OF tables_nonempty(1)]
      seedClass_Inl [OF tables_nonempty(2)] seedClass_Inl [OF tables_nonempty(3)]
      seedClass_Inl [OF tables_nonempty(4)])


lemma seedRequired_allYield:
  assumes "allYield rd (reads m)
             (nat (requireLower (receiver m)) + nat (requireUpper (receiver m)) +
              nat (requireDigits (receiver m)) + nat (requireSymbols (receiver m)))"
  shows "seedRequired rd buffer m =
           (Done (Inr (buffer @
              drawn rd LowerLetters (reads m) (nat (requireLower (receiver m))) @
              drawn rd UpperLetters (reads m + nat (requireLower (receiver m)))
                (nat (requireUpper (receiver m))) @
              drawn rd Digits
                (reads m + nat (requireLower (receiver m)) + nat (requireUpper (receiver m)))
                (nat (requireDigits (receiver m))) @
              drawn rd Symbols
                (reads m + nat (requireLower (receiver m)) + nat (requireUpper (receiver m)) +
                 nat (requireDigits (receiver m)))
                (nat (requireSymbols (receiver m))))),
            m\<lparr>reads := reads m + (nat (requireLower (receiver m)) +
                 nat (requireUpper (receiver m)) + nat (requireDigits (receiver m)) +
                 nat (requireSymbols (receiver m)))\<rparr>)"
proof -
  let ?g = "receiver m"
  let ?p = "reads m"
  let ?nl = "nat (requireLower ?g)" and ?nu = "nat (requireUpper ?g)"
    and ?nd = "nat (requireDigits ?g)" and ?ns = "nat (requireSymbols ?g)"
  from assms have y1: "allYield rd ?p ?nl" and y2: "allYield rd (?p + ?nl) ?nu"
    and y3: "allYield rd (?p + ?nl + ?nu) ?nd" and y4: "allYield rd (?p + ?nl + ?nu + ?nd) ?ns"
    by (simp_all add: allYield_add add.assoc)
  let ?m1 = "m\<lparr>reads := ?p + ?nl\<rparr>"
  let ?m2 = "m\<lparr>reads := ?p + ?nl + ?nu\<rparr>"
  let ?m3 = "m\<lparr>reads := ?p + ?nl + ?nu + ?nd\<rparr>"
  have s1: "seedClass rd LowerLetters requireLower b m =
              (Done (Inr (b @ drawn rd LowerLetters ?p ?nl)), ?m1)" for b
    using seedClass_allYield [OF tables_nonempty(1), of rd m requireLower b] y1 by simp
  have s2: "seedClass rd UpperLetters requireUpper b ?m1 =
              (Done (Inr (b @ drawn rd UpperLetters (?p + ?nl) ?nu)), ?m2)" for b
    using seedClass_allYield [OF tables_nonempty(2), of rd ?m1 requireUpper b] y2 by simp
  have s3: "seedClass rd Digits requireDigits b ?m2 =
              (Done (Inr (b @ drawn rd Digits (?p + ?nl + ?nu) ?nd)), ?m3)" for b
    using seedClass_allYield [OF tables_nonempty(3), of rd ?m2 requireDigits b] y3 by simp
  have s4: "seedClass rd Symbols requireSymbols b ?m3 =
              (Done (Inr (b @ drawn rd Symbols (?p + ?nl + ?nu + ?nd) ?ns)),
               m\<lparr>reads := ?p + ?nl + ?nu + ?nd + ?ns\<rparr>)" for b
    using seedClass_allYield [OF tables_nonempty(4), of rd ?m3 requireSymbols b] y4 by simp
  have "seedRequired rd buffer m =
          (Done (Inr ((((buffer @ drawn rd LowerLetters ?p ?nl) @
             drawn rd UpperLetters (?p + ?nl) ?nu) @ drawn rd Digits (?p + ?nl + ?nu) ?nd) @
             drawn rd Symbols (?p + ?nl + ?nu + ?nd) ?ns)),
           m\<lparr>reads := ?p + ?nl + ?nu + ?nd + ?ns\<rparr>)"
    by (simp only: seedRequired_def andThen_def s1 s2 s3 s4 prod.case exec.case sum.case)
  then show ?thesis
    by (simp add: add.assoc)
qed

lemma fillRemaining_no_panic: "fst (fillRemaining rd len buffer m) \<noteq> Panic p"
  by (simp add: fillRemaining_def Let_def appendRandom_no_panic)

lemma fillRemaining_Inl:
  assumes "fillRemaining rd len buffer m = (Done (Inl e), m')"
  shows "e = ErrReader \<or>
         (e = ErrNoCharactersSpecified \<and> fillPool (receiver m) = [] \<and>
          int (length buffer) < len \<and> m' = m)"
  using assms
  by (auto simp: fillRemaining_def Let_def split: if_splits dest: appendRandom_Inl)


lemma fillRemaining_allYield:
  assumes "fillPool (receiver m) \<noteq> []"
    and "allYield rd (reads m) (nat (len - int (length buffer)))"
  shows "fillRemaining rd len buffer m =
           (Done (Inr (buffer @
              drawn rd (fillPool (receiver m)) (reads m) (nat (len - int (length buffer))))),
            m\<lparr>reads := reads m + nat (len - int (length buffer))\<rparr>)"
proof (cases "int (length buffer) < len")
  case False
  then show ?thesis
    by (simp add: fillRemaining_def drawn_def)
next
  case True
  then show ?thesis
    using appendRandom_allYield [OF assms(1), of "\<lambda>g. len - int (length buffer)" m 0
        "nat (len - int (length buffer))" rd buffer] assms
    by (simp add: fillRemaining_def Let_def)
qed

lemma Generate_Panic:
  assumes "Generate rd len m = (Panic p, m')"
  shows "p = NilDereference"
proof -
  let ?f = "andThen (seedRequired rd '''') (fillRemaining rd len)"
  have np: "fst (?f m) \<noteq> Panic p"
    by (intro andThen_no_panic seedRequired_no_panic fillRemaining_no_panic)
  obtain r m1 where r: "?f m = (r, m1)"
    by (cases "?f m")
  from assms r np show ?thesis
    by (auto simp: Generate_def split: if_splits exec.splits sum.splits prod.splits
        dest: shuffle_Panic [rotated])
qed


lemma Generate_allYield:
  fixes m :: machine and len :: int and rd :: reader
  defines "g \<equiv> receiver m" and "p \<equiv> reads m"
  defines "nl \<equiv> nat (requireLower g)" and "nu \<equiv> nat (requireUpper g)"
    and "nd \<equiv> nat (requireDigits g)" and "ns \<equiv> nat (requireSymbols g)"
  defines "k \<equiv> nat (len - int (nl + nu + nd + ns))"
  assumes flags: "withLower g \<or> withUpper g \<or> withDigits g \<or> withSymbols g"
    and sum: "requiredSum g \<le> len"
    and pool: "fillPool g \<noteq> []"
    and yields: "allYield rd p (2 * (nl + nu + nd + ns + k))"
  shows "seedRequired rd '''' m =
           (Done (Inr (drawn rd LowerLetters p nl @ drawn rd UpperLetters (p + nl) nu @
              drawn rd Digits (p + nl + nu) nd @ drawn rd Symbols (p + nl + nu + nd) ns)),
            m\<lparr>reads := p + (nl + nu + nd + ns)\<rparr>)"
    and "fillRemaining rd len
           (drawn rd LowerLetters p nl @ drawn rd UpperLetters (p + nl) nu @
            drawn rd Digits (p + nl + nu) nd @ drawn rd Symbols (p + nl + nu + nd) ns)
           (m\<lparr>reads := p + (nl + nu + nd + ns)\<rparr>) =
           (Done (Inr ((drawn rd LowerLetters p nl @ drawn rd UpperLetters (p + nl) nu @
              drawn rd Digits (p + nl + nu) nd @ drawn rd Symbols (p + nl + nu + nd) ns) @
              drawn rd (fillPool g) (p + (nl + nu + nd + ns)) k)),
            m\<lparr>reads := p + (nl + nu + nd + ns + k)\<rparr>)"
    and "\<exists>pass. Generate rd len m =
             (Done (pass, None), m\<lparr>reads := p + 2 * (nl + nu + nd + ns + k)\<rparr>) \<and>
           mset pass =
             mset (drawn rd LowerLetters p nl @ drawn rd UpperLetters (p + nl) nu @
               drawn rd Digits (p + nl + nu) nd @ drawn rd Symbols (p + nl + nu + nd) ns @
               drawn rd (fillPool g) (p + (nl + nu + nd + ns)) k)"
proof -
  let ?n = "nl + nu + nd + ns"
  let ?seeded = "drawn rd LowerLetters p nl @ drawn rd UpperLetters (p + nl) nu @
              drawn rd Digits (p + nl + nu) nd @ drawn rd Symbols (p + nl + nu + nd) ns"
  let ?m1 = "m\<lparr>reads := p + ?n\<rparr>"
  let ?buffer = "?seeded @ drawn rd (fillPool g) (p + ?n) k"
  let ?m2 = "m\<lparr>reads := p + (?n + k)\<rparr>"
  have "2 * (?n + k) = ?n + (k + (?n + k))"
    by simp
  with yields have y1: "allYield rd p ?n" and y2: "allYield rd (p + ?n) k"
    and y3: "allYield rd (p + (?n + k)) (?n + k)"
    by (simp_all only: allYield_add add.assoc)
  have len_seeded: "length ?seeded = ?n"
    by (simp add: length_drawn)
  show seed: "seedRequired rd '''' m = (Done (Inr ?seeded), ?m1)"
    using seedRequired_allYield [of rd m "''''"] y1
    by (simp add: g_def p_def nl_def nu_def nd_def ns_def)
  show fill: "fillRemaining rd len ?seeded ?m1 = (Done (Inr ?buffer), ?m2)"
    using fillRemaining_allYield [of ?m1 rd len ?seeded] pool y2
    by (simp add: length_drawn k_def g_def add.assoc)
  have f: "andThen (seedRequired rd '''') (fillRemaining rd len) m = (Done (Inr ?buffer), ?m2)"
    by (simp only: andThen_def seed fill prod.case exec.case sum.case)
  have "length ?buffer = ?n + k"
    by (simp add: length_drawn)
  then obtain pass where sh: "shuffle rd (length ?buffer) ?buffer ?m2 =
      (Done pass, ?m2\<lparr>reads := reads ?m2 + (?n + k)\<rparr>)" and perm: "mset pass = mset ?buffer"
    using shuffle_allYield [of "length ?buffer" ?buffer rd ?m2] y3 by auto
  have nf: "\<not> (\<not> withLower (receiver m) \<and> \<not> withUpper (receiver m) \<and>
                \<not> withDigits (receiver m) \<and> \<not> withSymbols (receiver m))"
    using flags by (auto simp: g_def)
  have ns: "\<not> len < requiredSum (receiver m)"
    using sum by (simp add: g_def)
  have "Generate rd len m = (Done (pass, None), ?m2\<lparr>reads := reads ?m2 + (?n + k)\<rparr>)"
    by (simp only: Generate_def nf ns if_False f sh prod.case exec.case sum.case)
  then show "\<exists>pass. Generate rd len m =
             (Done (pass, None), m\<lparr>reads := p + 2 * (nl + nu + nd + ns + k)\<rparr>) \<and>
           mset pass =
             mset (drawn rd LowerLetters p nl @ drawn rd UpperLetters (p + nl) nu @
               drawn rd Digits (p + nl + nu) nd @ drawn rd Symbols (p + nl + nu + nd) ns @
               drawn rd (fillPool g) (p + (nl + nu + nd + ns)) k)"
    using perm by (intro exI [of _ pass]) simp
qed





lemma configured_nonempty: "constructed g \<Longrightarrow> configured g c \<noteq> []"
  by (cases c) (auto simp: constructed_def fullAlphabets_def noAmbigAlphabets_def table_defs split: if_splits)

lemma set_fillPool: "set (fillPool g) = (\<Union>c\<in>{c. enabled g c}. set (configured g c))"
proof -
  have "{c. enabled g c} = (if withLower g then {Lower} else {}) \<union> (if withUpper g then {Upper} else {}) \<union>
     (if withDigits g then {Digit} else {}) \<union> (if withSymbols g then {Symbol} else {})"
    (is "?A = ?B")
  proof (intro set_eqI iffI)
    fix c assume "c \<in> ?A" then show "c \<in> ?B" by (cases c) auto
  next
    fix c assume "c \<in> ?B" then show "c \<in> ?A" by (cases c) (auto split: if_splits)
  qed
  then show ?thesis
    by (auto simp: fillPool_def split: if_splits)
qed

lemma fillPool_nonempty:
  assumes "constructed g" and "enabled g c"
  shows "fillPool g \<noteq> []"
proof -
  have "set (configured g c) \<subseteq> set (fillPool g)"
    using assms(2) by (auto simp: set_fillPool)
  moreover have "set (configured g c) \<noteq> {}"
    using configured_nonempty [OF assms(1)] by simp
  ultimately show ?thesis by auto
qed

lemma wrap_int_id: "is_int x \<Longrightarrow> wrap_int x = x"
  by (simp add: wrap_int_def is_int_def)

lemma requiredSum_exact:
  assumes "0 \<le> requireLower g" and "0 \<le> requireUpper g" and "0 \<le> requireDigits g"
    and "0 \<le> requireSymbols g"
    and "is_int (requireLower g + requireUpper g + requireDigits g + requireSymbols g)"
  shows "requiredSum g = requireLower g + requireUpper g + requireDigits g + requireSymbols g"
proof -
  have "is_int (requireLower g + requireUpper g)"
    and "is_int (requireLower g + requireUpper g + requireDigits g)"
    using assms by (auto simp: is_int_def)
  then show ?thesis
    using assms(5) by (simp add: requiredSum_def add_int_def wrap_int_id)
qed

lemma listReader_no_Fails: "Fails \<notin> set ds \<Longrightarrow> listReader ds i \<noteq> Fails"
  by (auto simp: listReader_def dest: nth_mem)

lemma allYield_listReader: "Fails \<notin> set ds \<Longrightarrow> allYield (listReader ds) p k"
  by (simp add: allYield_def listReader_no_Fails)






section \<open>The claims\<close>

text \<open>
  C2. A failure of the random source while required characters are seeded or the
  remaining slots are filled is returned as the error of \<^verbatim>\<open>Generate\<close>. A failure in
  the final shuffle is not: \<^verbatim>\<open>shuffle\<close> drops the error and calls \<^verbatim>\<open>Int64\<close> on the nil
  pointer. With the lower-case letters enabled and length 2, two answers fill the buffer;
  when the third call of \<^verbatim>\<open>rand.Int\<close> (the first of the shuffle, with bound 2) fails,
  \<^verbatim>\<open>Generate\<close> panics instead of returning the error.
\<close>

theorem Generate_random_failure_in_shuffle:
  "Generate (listReader [Yields 3, Yields 10, Fails]) 2 (start (WithLower NewGenerator)) =
     (Panic NilDereference, \<lparr>receiver = WithLower NewGenerator, reads = 3\<rparr>)"
  by (simp add: run_defs config_defs LowerLetters_def)

text \<open>
  C3. \<^verbatim>\<open>Generate\<close> returns \<^verbatim>\<open>ErrNoCharactersSpecified\<close> from its first guard whenever no
  inclusion flag is set, also when a required count is set: after \<^verbatim>\<open>ExactLower(5)\<close> on a
  new generator, \<^verbatim>\<open>Generate(5)\<close> returns the error without reading the random source,
  although five required characters would fill all five slots.
\<close>

theorem Generate_exact_only:
  "withLower (ExactLower 5 NewGenerator) = False \<and>
   requireLower (ExactLower 5 NewGenerator) = 5 \<and>
   Generate (listReader []) 5 (start (ExactLower 5 NewGenerator)) =
     (Done ('''', Some ErrNoCharactersSpecified), start (ExactLower 5 NewGenerator))"
  by (simp add: run_defs config_defs)




text \<open>
  C8. When no inclusion flag is set, the fill pool is empty, the fill step answers a
  buffer shorter than the requested length with \<^verbatim>\<open>ErrNoCharactersSpecified\<close>, and
  \<^verbatim>\<open>Generate\<close> returns the empty string and that error, never a shorter password.
\<close>

theorem Generate_nothing_enabled:
  assumes "\<not> withLower (receiver m)" and "\<not> withUpper (receiver m)"
    and "\<not> withDigits (receiver m)" and "\<not> withSymbols (receiver m)"
  shows "fillPool (receiver m) = '''' \<and>
         (int (length buffer) < len \<longrightarrow>
            fillRemaining rd len buffer m = (Done (Inl ErrNoCharactersSpecified), m)) \<and>
         Generate rd len m = (Done ('''', Some ErrNoCharactersSpecified), m)"
  using assms by (simp add: Generate_def fillRemaining_def fillPool_def)

theorem Generate_nothing_enabled_witness:
  "fillPool (ExactUpper 5 (WithUpper NewGenerator)) = '''' \<and>
   fillRemaining (listReader []) 8 ''ABCDE'' (start (ExactUpper 5 (WithUpper NewGenerator))) =
     (Done (Inl ErrNoCharactersSpecified), start (ExactUpper 5 (WithUpper NewGenerator))) \<and>
   Generate (listReader []) 8 (start (ExactUpper 5 (WithUpper NewGenerator))) =
     (Done ('''', Some ErrNoCharactersSpecified), start (ExactUpper 5 (WithUpper NewGenerator)))"
  using Generate_nothing_enabled
    [of "start (ExactUpper 5 (WithUpper NewGenerator))" "''ABCDE''" 8 "listReader []"]
  by (simp add: start_def config_defs)

text \<open>
  C9. \<^verbatim>\<open>Generate\<close> leaves the generator as it found it, whether it returns a password,
  returns an error or panics: all twelve fields are unchanged, and so they are after a
  second call on the same generator.
\<close>

theorem Generate_leaves_generator:
  "receiver (snd (Generate rd len m)) = receiver m \<and>
   receiver (snd (Generate rd' len' (snd (Generate rd len m)))) = receiver m"
  by (simp add: Generate_receiver)

text \<open>
  C1. For a generator made by \<^verbatim>\<open>NewGenerator\<close> with at least one class enabled and
  all four required counts non-negative, and a length (a Go \<^verbatim>\<open>int\<close>) not below the
  sum of the counts: when none of the \<open>2 * length\<close> answers of the random source that
  the call uses is a failure, \<^verbatim>\<open>Generate\<close> returns a nil error and a string of
  exactly \<open>length\<close> characters.
\<close>

theorem Generate_length:
  assumes alphabets: "constructed (receiver m)"
    and flags: "withLower (receiver m) \<or> withUpper (receiver m) \<or>
                withDigits (receiver m) \<or> withSymbols (receiver m)"
    and nonneg: "0 \<le> requireLower (receiver m)" "0 \<le> requireUpper (receiver m)"
      "0 \<le> requireDigits (receiver m)" "0 \<le> requireSymbols (receiver m)"
    and fits: "requireLower (receiver m) + requireUpper (receiver m) +
               requireDigits (receiver m) + requireSymbols (receiver m) \<le> len"
    and len: "is_int len"
    and yields: "allYield rd (reads m) (2 * nat len)"
  shows "\<exists>pass. Generate rd len m = (Done (pass, None), m\<lparr>reads := reads m + 2 * nat len\<rparr>) \<and>
           int (length pass) = len"
proof -
  let ?g = "receiver m"
  let ?n = "nat (requireLower ?g) + nat (requireUpper ?g) + nat (requireDigits ?g) +
            nat (requireSymbols ?g)"
  let ?k = "nat (len - int ?n)"
  have n: "int ?n = requireLower ?g + requireUpper ?g + requireDigits ?g + requireSymbols ?g"
    using nonneg by simp
  then have total: "?n + ?k = nat len"
    using fits by linarith
  have "is_int (requireLower ?g + requireUpper ?g + requireDigits ?g + requireSymbols ?g)"
    using nonneg fits len by (simp add: is_int_def)
  then have sum: "requiredSum ?g \<le> len"
    using requiredSum_exact [OF nonneg] fits by simp
  obtain c where "enabled ?g c"
    using flags by (metis enabled.simps)
  then have pool: "fillPool ?g \<noteq> []"
    using fillPool_nonempty [OF alphabets] by simp
  have y': "allYield rd (reads m) (2 * (?n + ?k))"
    using yields by (simp only: total)
  from Generate_allYield(3) [OF flags sum pool y']
  obtain pass where run: "Generate rd len m =
      (Done (pass, None), m\<lparr>reads := reads m + 2 * (?n + ?k)\<rparr>)"
    and perm: "mset pass = mset (drawn rd LowerLetters (reads m) (nat (requireLower ?g)) @
      drawn rd UpperLetters (reads m + nat (requireLower ?g)) (nat (requireUpper ?g)) @
      drawn rd Digits (reads m + nat (requireLower ?g) + nat (requireUpper ?g))
        (nat (requireDigits ?g)) @
      drawn rd Symbols
        (reads m + nat (requireLower ?g) + nat (requireUpper ?g) + nat (requireDigits ?g))
        (nat (requireSymbols ?g)) @
      drawn rd (fillPool ?g) (reads m + ?n) ?k)"
    by blast
  have "length pass = ?n + ?k"
    using arg_cong [OF perm, of size] by (simp add: length_drawn)
  then have "int (length pass) = len"
    using total fits n nonneg by linarith
  with run show ?thesis
    unfolding total by blast
qed


theorem Generate_length_witness:
  "\<exists>pass. Generate (listReader [Yields 11, Yields 7, Yields 42, Yields 5, Yields 30, Yields 2])
            6 (start (RequireDigits 2 (RequireLower 1 (WithUpper NewGenerator)))) =
           (Done (pass, None),
            (start (RequireDigits 2 (RequireLower 1 (WithUpper NewGenerator))))\<lparr>reads := 12\<rparr>) \<and>
          int (length pass) = 6"
  using Generate_length
    [of "start (RequireDigits 2 (RequireLower 1 (WithUpper NewGenerator)))" 6
      "listReader [Yields 11, Yields 7, Yields 42, Yields 5, Yields 30, Yields 2]"]
  by (simp add: start_def config_defs constructed_def fullAlphabets_def is_int_def
      allYield_listReader)

text \<open>
  C10. \<^verbatim>\<open>randomElement\<close> on the empty string would panic in \<^verbatim>\<open>rand.Int\<close>. Within
  \<^verbatim>\<open>Generate\<close> that never happens: seeding and filling, the two steps that call
  \<^verbatim>\<open>randomElement\<close>, never panic, and \<^verbatim>\<open>Generate\<close> as a whole never panics on a
  non-positive bound or an index out of range.
\<close>

theorem Generate_randomElement_in_bounds:
  "randomElement rd '''' m = (Panic IntArgumentNotPositive, m) \<and>
   fst (seedRequired rd buffer m) \<noteq> Panic p \<and>
   fst (fillRemaining rd len buffer m) \<noteq> Panic p \<and>
   fst (Generate rd len m) \<noteq> Panic IntArgumentNotPositive \<and>
   fst (Generate rd len m) \<noteq> Panic IndexOutOfRange"
proof -
  have "fst (Generate rd len m) \<noteq> Panic q" if "q \<noteq> NilDereference" for q
    using Generate_Panic [of rd len m q "snd (Generate rd len m)"] that
    by (cases "Generate rd len m") auto
  then show ?thesis
    by (simp add: randomElement_empty seedRequired_no_panic fillRemaining_no_panic)
qed





text \<open>
  C6. Seeding draws from the constant tables, whatever alphabets the generator is
  configured with; filling draws from the configured alphabets of the enabled classes.
  Take a generator with at least one class enabled, a required sum within the length and
  a non-empty fill pool, and a random source whose answers do not fail during the call.
  Then the seeding step returns, for each class in turn, as many characters as its
  required count, each the entry of \<^verbatim>\<open>LowerLetters\<close>, \<^verbatim>\<open>UpperLetters\<close>, \<^verbatim>\<open>Digits\<close> or
  \<^verbatim>\<open>Symbols\<close> at the index its own answer selects; the fill step appends the remaining
  characters, each the entry of the pool at the index its own answer selects, the pool
  being the concatenation of the generator's own alphabet fields for the enabled classes;
  and the password is a permutation of that buffer.
\<close>

theorem Generate_seeds_from_full_tables:
  assumes flags: "withLower (receiver m) \<or> withUpper (receiver m) \<or>
                  withDigits (receiver m) \<or> withSymbols (receiver m)"
    and sum: "requiredSum (receiver m) \<le> len"
    and pool: "fillPool (receiver m) \<noteq> []"
    and yields: "allYield rd (reads m)
                   (2 * (seedCount (receiver m) + fillCount (receiver m) len))"
  shows "seedRequired rd '''' m =
           (Done (Inr (seeded rd (receiver m) (reads m))),
            m\<lparr>reads := reads m + seedCount (receiver m)\<rparr>) \<and>
         seeded rd (receiver m) (reads m) =
           drawn rd LowerLetters (reads m) (nat (requireLower (receiver m))) @
           drawn rd UpperLetters (reads m + nat (requireLower (receiver m)))
             (nat (requireUpper (receiver m))) @
           drawn rd Digits
             (reads m + nat (requireLower (receiver m)) + nat (requireUpper (receiver m)))
             (nat (requireDigits (receiver m))) @
           drawn rd Symbols
             (reads m + nat (requireLower (receiver m)) + nat (requireUpper (receiver m)) +
              nat (requireDigits (receiver m)))
             (nat (requireSymbols (receiver m))) \<and>
         fillRemaining rd len (seeded rd (receiver m) (reads m))
             (m\<lparr>reads := reads m + seedCount (receiver m)\<rparr>) =
           (Done (Inr (seeded rd (receiver m) (reads m) @
              drawn rd (fillPool (receiver m)) (reads m + seedCount (receiver m))
                (fillCount (receiver m) len))),
            m\<lparr>reads := reads m + (seedCount (receiver m) + fillCount (receiver m) len)\<rparr>) \<and>
         fillPool (receiver m) =
           (if withLower (receiver m) then lowerLetters (receiver m) else '''') @
           (if withUpper (receiver m) then upperLetters (receiver m) else '''') @
           (if withDigits (receiver m) then digits (receiver m) else '''') @
           (if withSymbols (receiver m) then symbols (receiver m) else '''') \<and>
         (\<exists>pass. Generate rd len m =
             (Done (pass, None),
              m\<lparr>reads := reads m + 2 * (seedCount (receiver m) + fillCount (receiver m) len)\<rparr>) \<and>
            mset pass =
              mset (seeded rd (receiver m) (reads m) @
                drawn rd (fillPool (receiver m)) (reads m + seedCount (receiver m))
                  (fillCount (receiver m) len)))"
proof -
  note yields' = yields [unfolded seedCount_def fillCount_def]
  note a = Generate_allYield [OF flags sum pool yields']
  show ?thesis
    using a(1) a(2) a(3)
    by (simp add: seedCount_def fillCount_def seeded_def fillPool_def)
qed

theorem Generate_seeds_from_full_tables_witness:
  "seedRequired (listReader [Yields 11, Yields 0, Yields 30]) ''''
       (start (NoAmbiguousCharacters (RequireLower 1 (WithDigits NewGenerator)))) =
     (Done (Inr ''l''),
      (start (NoAmbiguousCharacters (RequireLower 1 (WithDigits NewGenerator))))\<lparr>reads := 1\<rparr>) \<and>
   fillRemaining (listReader [Yields 11, Yields 0, Yields 30]) 3 ''l''
       ((start (NoAmbiguousCharacters (RequireLower 1 (WithDigits NewGenerator))))\<lparr>reads := 1\<rparr>) =
     (Done (Inr ''la9''),
      (start (NoAmbiguousCharacters (RequireLower 1 (WithDigits NewGenerator))))\<lparr>reads := 3\<rparr>) \<and>
   fillPool (NoAmbiguousCharacters (RequireLower 1 (WithDigits NewGenerator))) =
     LowerLettersNoAmbig @ DigitsNoAmbig \<and>
   (\<exists>pass. Generate (listReader [Yields 11, Yields 0, Yields 30]) 3
        (start (NoAmbiguousCharacters (RequireLower 1 (WithDigits NewGenerator)))) =
      (Done (pass, None),
       (start (NoAmbiguousCharacters (RequireLower 1 (WithDigits NewGenerator))))\<lparr>reads := 6\<rparr>) \<and>
      mset pass = mset ''la9'')"
proof -
  let ?g = "NoAmbiguousCharacters (RequireLower 1 (WithDigits NewGenerator))"
  let ?rd = "listReader [Yields 11, Yields 0, Yields 30]"
  have g: "receiver (start ?g) = ?g" and p: "reads (start ?g) = 0"
    by (simp_all add: start_def)
  have counts: "seedCount ?g = 1" "fillCount ?g 3 = 2"
    by (simp_all add: seedCount_def fillCount_def config_defs)
  have flags: "withLower (receiver (start ?g)) \<or> withUpper (receiver (start ?g)) \<or>
      withDigits (receiver (start ?g)) \<or> withSymbols (receiver (start ?g))"
    by (simp add: start_def config_defs)
  have sum: "requiredSum (receiver (start ?g)) \<le> 3"
    by (simp add: start_def config_defs requiredSum_def add_int_def wrap_int_def)
  have pool: "fillPool ?g = LowerLettersNoAmbig @ DigitsNoAmbig"
    by (simp add: fillPool_def config_defs)
  then have nonempty: "fillPool (receiver (start ?g)) \<noteq> []"
    by (simp add: g LowerLettersNoAmbig_def)
  have yields: "allYield ?rd (reads (start ?g))
      (2 * (seedCount (receiver (start ?g)) + fillCount (receiver (start ?g)) 3))"
    by (rule allYield_listReader) simp
  have seeded: "seeded ?rd ?g 0 = ''l''"
    by (simp add: seeded_def drawn_def pick_def listReader_def config_defs LowerLetters_def)
  have filled: "drawn ?rd (LowerLettersNoAmbig @ DigitsNoAmbig) (Suc 0) 2 = ''a9''"
    by (simp add: drawn_def pick_def listReader_def table_defs upt_rec)
  note inst = Generate_seeds_from_full_tables [OF flags sum nonempty yields, unfolded g p counts]
  from inst [THEN conjunct1]
  have c1: "seedRequired ?rd '''' (start ?g) = (Done (Inr ''l''), (start ?g)\<lparr>reads := 1\<rparr>)"
    by (simp add: seeded)
  from inst [THEN conjunct2, THEN conjunct2, THEN conjunct1]
  have c3: "fillRemaining ?rd 3 ''l'' ((start ?g)\<lparr>reads := 1\<rparr>) =
      (Done (Inr ''la9''), (start ?g)\<lparr>reads := 3\<rparr>)"
    by (simp add: seeded pool filled)
  from inst [THEN conjunct2, THEN conjunct2, THEN conjunct2, THEN conjunct2]
  have c5: "\<exists>pass. Generate ?rd 3 (start ?g) = (Done (pass, None), (start ?g)\<lparr>reads := 6\<rparr>) \<and>
      mset pass = mset ''la9''"
    by (simp add: seeded pool filled)
  from c1 c3 pool c5 show ?thesis
    by (intro conjI)
qed

end
